theory Spec2Isabelle
  imports Main "HOL-Library.Sublist"
begin

section \<open>The screen refactoring script\<close>

text \<open>
  A shallow embedding of \<^verbatim>\<open>scripts/refactor-screen.py\<close>: the function
  \<^verbatim>\<open>refactor_screen\<close>, which reads a file, rewrites its text with four calls of
  \<^verbatim>\<open>re.sub\<close> and writes it back, and the \<^verbatim>\<open>__main__\<close> block that calls it.

  A text is a \<open>string\<close>. Each character stands for one code point of the Python
  \<^verbatim>\<open>str\<close> below 256 (ASCII and Latin-1); texts with other code points are not covered.
  The file store holds what a text-mode \<^verbatim>\<open>f.read()\<close> returns.
\<close>

subsection \<open>Word characters\<close>

text \<open>
  The class \<^verbatim>\<open>\w\<close> of a \<^verbatim>\<open>str\<close> pattern: the characters that are alphanumeric in
  Unicode, and the underscore. Below 256 these are the digits, the ASCII letters, the
  underscore, and the Latin-1 letters and numeric characters listed here.
\<close>

definition is_word :: "char \<Rightarrow> bool" where
  "is_word c =
     (let n = (of_char c :: nat) in
        (48 \<le> n \<and> n \<le> 57) \<or> (65 \<le> n \<and> n \<le> 90) \<or> n = 95 \<or> (97 \<le> n \<and> n \<le> 122) \<or>
        n = 170 \<or> n = 178 \<or> n = 179 \<or> n = 181 \<or> n = 185 \<or> n = 186 \<or>
        (188 \<le> n \<and> n \<le> 190) \<or> (192 \<le> n \<and> n \<le> 214) \<or>
        (216 \<le> n \<and> n \<le> 246) \<or> (248 \<le> n \<and> n \<le> 255))"

subsection \<open>Replacing a literal\<close>

text \<open>
  \<^verbatim>\<open>old.replace(old, new)\<close> of \<^verbatim>\<open>str\<close>, for a non-empty \<open>old\<close>: every occurrence
  found scanning from the left, an occurrence starting only after the previous one ends.
  (For an empty \<open>old\<close> Python inserts \<open>new\<close> around every character; the script never
  replaces the empty string, and the model leaves the text as it is.)
\<close>

function str_replace :: "string \<Rightarrow> string \<Rightarrow> string \<Rightarrow> string" where
  "str_replace old new [] = []"
| "str_replace old new (c # cs) =
     (if old \<noteq> [] \<and> prefix old (c # cs)
      then new @ str_replace old new (drop (length old) (c # cs))
      else c # str_replace old new cs)"
  by pat_completeness auto
termination
  by (relation "measure (\<lambda>(old, new, s). length s)") auto

text \<open>
  \<^verbatim>\<open>re.sub(pat, repl, s)\<close> for a pattern \<open>pat\<close> that is a non-empty literal (none of its
  characters is special): the matches are the occurrences of \<open>pat\<close>, found from the
  left without overlap, and each is replaced by \<open>repl\<close> applied to the matched text
  \<^verbatim>\<open>m.group(0)\<close>. A replacement string without backslashes is the constant function.
\<close>

function re_sub_literal :: "string \<Rightarrow> (string \<Rightarrow> string) \<Rightarrow> string \<Rightarrow> string" where
  "re_sub_literal pat repl [] = []"
| "re_sub_literal pat repl (c # cs) =
     (if pat \<noteq> [] \<and> prefix pat (c # cs)
      then repl (take (length pat) (c # cs)) @ re_sub_literal pat repl (drop (length pat) (c # cs))
      else c # re_sub_literal pat repl cs)"
  by pat_completeness auto
termination
  by (relation "measure (\<lambda>(pat, repl, s). length s)") auto

subsection \<open>The component pattern\<close>

text \<open>
  The pattern
  \<^verbatim>\<open>(export default function \w+\(\) \{[^}]*?)(const \{)\<close>
  is matched by backtracking. Each piece of the pattern is a function that takes the
  rest of the pattern as a continuation \<open>k\<close> and the text still to be read, tries its
  alternatives in the order of the regular expression engine and returns the first
  success of the whole.
\<close>

definition lit :: "string \<Rightarrow> (string \<Rightarrow> 'a option) \<Rightarrow> string \<Rightarrow> 'a option" where
  "lit l k s = (if prefix l s then k (drop (length l) s) else None)"

text \<open>\<^verbatim>\<open>\w*\<close>, greedy: one more word character first, then none.\<close>

fun word_star :: "(string \<Rightarrow> 'a option) \<Rightarrow> string \<Rightarrow> 'a option" where
  "word_star k [] = k []"
| "word_star k (c # cs) =
     (if is_word c
      then (case word_star k cs of Some r \<Rightarrow> Some r | None \<Rightarrow> k (c # cs))
      else k (c # cs))"

text \<open>\<^verbatim>\<open>\w+\<close>: one word character, then \<^verbatim>\<open>\w*\<close>.\<close>

fun word_plus :: "(string \<Rightarrow> 'a option) \<Rightarrow> string \<Rightarrow> 'a option" where
  "word_plus k [] = None"
| "word_plus k (c # cs) = (if is_word c then word_star k cs else None)"

text \<open>\<^verbatim>\<open>[^}]*?\<close>, lazy: the rest of the pattern first, then one more character that is
  not a closing brace.\<close>

fun not_brace_lazy :: "(string \<Rightarrow> 'a option) \<Rightarrow> string \<Rightarrow> 'a option" where
  "not_brace_lazy k [] = k []"
| "not_brace_lazy k (c # cs) =
     (case k (c # cs) of
        Some r \<Rightarrow> Some r
      | None \<Rightarrow> if c = CHR ''}'' then None else not_brace_lazy k cs)"

text \<open>
  A match at the start of \<open>s\<close> is returned as the pair \<open>(r1, r2)\<close> of the text left
  after group 1 and the text left after the whole match.
\<close>

definition component_pattern :: "string \<Rightarrow> (string \<times> string) option" where
  "component_pattern s =
     lit ''export default function ''
       (word_plus
         (lit ''() {''
           (not_brace_lazy
             (\<lambda>r1. lit ''const {'' (\<lambda>r2. Some (r1, r2)) r1)))) s"

text \<open>
  The template \<^verbatim>\<open>r"\1const { colors } = useTheme();\n  \2"\<close>, expanded for a match at
  the start of \<open>s\<close>, followed by the text after the match.
\<close>

definition expand_component :: "string \<Rightarrow> string \<times> string \<Rightarrow> string" where
  "expand_component s m =
     (case m of (r1, r2) \<Rightarrow>
        take (length s - length r1) s @ ''const { colors } = useTheme();\<newline>  '' @
        take (length r1 - length r2) r1 @ r2)"

text \<open>\<^verbatim>\<open>re.sub(component_pattern, template, s, count=1)\<close>: the leftmost match only.\<close>

fun sub_component :: "string \<Rightarrow> string" where
  "sub_component [] =
     (case component_pattern [] of Some m \<Rightarrow> expand_component [] m | None \<Rightarrow> [])"
| "sub_component (c # cs) =
     (case component_pattern (c # cs) of
        Some m \<Rightarrow> expand_component (c # cs) m
      | None \<Rightarrow> c # sub_component cs)"

subsection \<open>The reference pattern\<close>

text \<open>
  \<^verbatim>\<open>\bColors\.\<close> at a position of the text: \<open>pw\<close> says whether the character before
  the position is a word character (\<open>False\<close> at the start of the text). \<^verbatim>\<open>\b\<close> holds
  where exactly one of the two neighbours is a word character.
\<close>

definition colors_pattern :: "bool \<Rightarrow> string \<Rightarrow> bool" where
  "colors_pattern pw s =
     (pw \<noteq> (case s of [] \<Rightarrow> False | c # _ \<Rightarrow> is_word c) \<and> prefix ''Colors.'' s)"

text \<open>\<^verbatim>\<open>re.sub(r'\bColors\.', 'colors.', s)\<close>; after a match the character before the
  next position is the dot.\<close>

function sub_colors :: "bool \<Rightarrow> string \<Rightarrow> string" where
  "sub_colors pw [] = []"
| "sub_colors pw (c # cs) =
     (if colors_pattern pw (c # cs)
      then ''colors.'' @ sub_colors (is_word CHR ''.'') (drop (length ''Colors.'') (c # cs))
      else c # sub_colors (is_word c) cs)"
  by pat_completeness auto
termination
  by (relation "measure (\<lambda>(pw, s). length s)") auto

subsection \<open>Files and output\<close>

datatype os_error = FileNotFoundError | PermissionError

record file_entry =
  content :: string
  readable :: bool
  writable :: bool

text \<open>\<open>opened\<close> records the path of every call of \<^verbatim>\<open>open\<close>, in order.\<close>

record world =
  files :: "string \<rightharpoonup> file_entry"
  stdout :: "string list"
  opened :: "string list"

definition open_read :: "string \<Rightarrow> world \<Rightarrow> (os_error + string) \<times> world" where
  "open_read path w =
     (let w' = w\<lparr>opened := opened w @ [path]\<rparr> in
      case files w path of
        None \<Rightarrow> (Inl FileNotFoundError, w')
      | Some f \<Rightarrow> if readable f then (Inr (content f), w') else (Inl PermissionError, w'))"

definition open_write :: "string \<Rightarrow> string \<Rightarrow> world \<Rightarrow> (os_error + unit) \<times> world" where
  "open_write path c w =
     (let w' = w\<lparr>opened := opened w @ [path]\<rparr> in
      case files w path of
        None \<Rightarrow>
          (Inr (), w'\<lparr>files := (files w)(path \<mapsto> \<lparr>content = c, readable = True, writable = True\<rparr>)\<rparr>)
      | Some f \<Rightarrow>
          if writable f then (Inr (), w'\<lparr>files := (files w)(path \<mapsto> f\<lparr>content := c\<rparr>)\<rparr>)
          else (Inl PermissionError, w'))"

definition print :: "string \<Rightarrow> world \<Rightarrow> world" where
  "print line w = w\<lparr>stdout := stdout w @ [line]\<rparr>"

text \<open>The check mark U+2705, as the three bytes of its UTF-8 encoding.\<close>

definition check_mark :: string where
  "check_mark = [CHR 0xE2, CHR 0x9C, CHR 0x85]"

subsection \<open>\<^verbatim>\<open>refactor_screen\<close>\<close>

text \<open>The four assignments to \<^verbatim>\<open>content\<close> between the read and the write.\<close>

definition refactor_content :: "string \<Rightarrow> string" where
  "refactor_content content0 =
     (let content1 = re_sub_literal ''import { Colors,''
            (\<lambda>m. ''import { useTheme } from '@/src/contexts/ThemeContext';\<newline>import {'')
            content0;
          content2 = re_sub_literal ''from '@/src/constants';''
            (\<lambda>m. str_replace ''Colors, '' [] (str_replace '', Colors'' [] m))
            content1;
          content3 = sub_component content2;
          content4 = sub_colors False content3
      in content4)"

definition refactor_screen :: "string \<Rightarrow> world \<Rightarrow> (os_error + unit) \<times> world" where
  "refactor_screen filepath w =
     (case open_read filepath w of
        (Inl e, w1) \<Rightarrow> (Inl e, w1)
      | (Inr content0, w1) \<Rightarrow>
          (case open_write filepath (refactor_content content0) w1 of
             (Inl e, w2) \<Rightarrow> (Inl e, w2)
           | (Inr u, w2) \<Rightarrow> (Inr (), print (check_mark @ '' Refactored: '' @ filepath) w2)))"

subsection \<open>The main block\<close>

text \<open>\<open>Exit n\<close> is a normal end or \<^verbatim>\<open>sys.exit(n)\<close>; \<open>Uncaught e\<close> is the end of the
  process by an exception that nothing catches.\<close>

datatype outcome = Exit nat | Uncaught os_error

definition main :: "string list \<Rightarrow> world \<Rightarrow> outcome \<times> world" where
  "main argv w =
     (if length argv < 2
      then (Exit 1, print ''Usage: python refactor-screen.py <filepath>'' w)
      else (case refactor_screen (argv ! 1) w of
              (Inl e, w') \<Rightarrow> (Uncaught e, w')
            | (Inr u, w') \<Rightarrow> (Exit 0, w')))"

subsection \<open>The steps of the transformation\<close>

text \<open>
  Each of the four calls of \<^verbatim>\<open>re.sub\<close> as a function of the text it is given:
  import substitution, import-list cleanup, hook insertion and reference substitution.
\<close>

definition theme_block :: string where
  "theme_block = ''import { useTheme } from '@/src/contexts/ThemeContext';\<newline>import {''"

definition import_substitution :: "string \<Rightarrow> string" where
  "import_substitution s = re_sub_literal ''import { Colors,'' (\<lambda>m. theme_block) s"

definition import_cleanup :: "string \<Rightarrow> string" where
  "import_cleanup s =
     re_sub_literal ''from '@/src/constants';''
       (\<lambda>m. str_replace ''Colors, '' [] (str_replace '', Colors'' [] m)) s"

definition hook_line :: string where
  "hook_line = ''const { colors } = useTheme();\<newline>  ''"

definition hook_insertion :: "string \<Rightarrow> string" where
  "hook_insertion s = sub_component s"

definition reference_substitution :: "string \<Rightarrow> string" where
  "reference_substitution s = sub_colors False s"

text \<open>
  The part of the component pattern before \<^verbatim>\<open>[^}]*?\<close>: a declaration
  \<^verbatim>\<open>export default function <identifier>() {\<close> at the start of \<open>s\<close>, returning the
  text after its opening brace; and the positions of a text where a declaration starts.
\<close>

definition component_header :: "string \<Rightarrow> string option" where
  "component_header s = lit ''export default function '' (word_plus (lit ''() {'' Some)) s"

definition declaration_positions :: "string \<Rightarrow> nat list" where
  "declaration_positions s =
     filter (\<lambda>j. component_header (drop j s) \<noteq> None) [0..<length s]"

text \<open>The start position of the leftmost match of the component pattern, if any.\<close>

definition first_component_match :: "string \<Rightarrow> nat option" where
  "first_component_match s =
     find (\<lambda>j. component_pattern (drop j s) \<noteq> None) [0..<length s]"

subsection \<open>The text layer of \<^verbatim>\<open>open\<close>\<close>











section \<open>Properties\<close>

subsection \<open>Literal patterns\<close>

lemma is_word_dot: "is_word CHR ''.'' = False"
  by (simp add: is_word_def)

lemma is_word_C: "is_word CHR ''C'' = True"
  by (simp add: is_word_def)

lemma prefix_nth: "prefix ps xs \<Longrightarrow> i < length ps \<Longrightarrow> xs ! i = ps ! i"
  by (auto simp: prefix_def nth_append)

lemma no_straddle:
  assumes ne: "pat \<noteq> []" and hd: "hd pat \<notin> set (tl pat)"
    and pre: "prefix pat (x @ pat @ b)" and x: "x \<noteq> []"
  shows "prefix pat x"
proof (cases "length pat \<le> length x")
  case True
  have "prefix x (x @ pat @ b)" by simp
  then show ?thesis using prefix_length_prefix [OF pre _ True] by simp
next
  case False
  then have lt: "length x < length pat" by simp
  from x have pos: "0 < length x" by simp
  have "(x @ pat @ b) ! length x = (pat @ b) ! 0" by (simp add: nth_append)
  also have "\<dots> = hd pat" using ne by (simp add: nth_append hd_conv_nth)
  finally have "pat ! length x = hd pat" using prefix_nth [OF pre lt] by simp
  moreover have lt': "length x - 1 < length (tl pat)" using x lt by (cases x) simp_all
  moreover have "pat ! length x = tl pat ! (length x - 1)" using x nth_tl [OF lt'] by (cases x) simp_all
  ultimately have "hd pat \<in> set (tl pat)" by (metis nth_mem)
  with hd show ?thesis by simp
qed

lemma re_sub_literal_unfold:
  "s \<noteq> [] \<Longrightarrow> re_sub_literal pat repl s =
     (if pat \<noteq> [] \<and> prefix pat s
      then repl (take (length pat) s) @ re_sub_literal pat repl (drop (length pat) s)
      else hd s # re_sub_literal pat repl (tl s))"
  by (cases s) simp_all

lemma re_sub_literal_append:
  assumes "pat \<noteq> []" and "hd pat \<notin> set (tl pat)"
  shows "re_sub_literal pat repl (a @ pat @ b) =
         re_sub_literal pat repl a @ repl pat @ re_sub_literal pat repl b"
  using assms
proof (induction pat repl a rule: re_sub_literal.induct)
  case (1 pat repl)
  then show ?case by (simp add: re_sub_literal_unfold)
next
  case (2 pat repl d ds)
  note ne = "2.prems"(1) and hd = "2.prems"(2)
  define s where "s = d # ds"
  have s: "s \<noteq> []" "hd s = d" "tl s = ds" by (simp_all add: s_def)
  have unf: "re_sub_literal pat repl (s @ pat @ b) =
     (if prefix pat (s @ pat @ b)
      then repl (take (length pat) (s @ pat @ b)) @
           re_sub_literal pat repl (drop (length pat) (s @ pat @ b))
      else d # re_sub_literal pat repl (ds @ pat @ b))"
    using ne s by (simp add: re_sub_literal_unfold)
  have unf': "re_sub_literal pat repl s =
     (if prefix pat s
      then repl (take (length pat) s) @ re_sub_literal pat repl (drop (length pat) s)
      else d # re_sub_literal pat repl ds)"
    using ne s by (simp add: re_sub_literal_unfold)
  have "re_sub_literal pat repl (s @ pat @ b) =
         re_sub_literal pat repl s @ repl pat @ re_sub_literal pat repl b"
  proof (cases "prefix pat s")
    case True
    then have le: "length pat \<le> length s" by (rule prefix_length_le)
    from True have p: "prefix pat (s @ pat @ b)" by (rule prefix_prefix)
    from le have t: "take (length pat) (s @ pat @ b) = take (length pat) s"
      and dr: "drop (length pat) (s @ pat @ b) = drop (length pat) s @ pat @ b"
      by simp_all
    from True have "pat \<noteq> [] \<and> prefix pat (d # ds)" using ne by (simp add: s_def)
    from "2.IH"(1) [OF this ne hd]
    have "re_sub_literal pat repl (drop (length pat) s @ pat @ b) =
          re_sub_literal pat repl (drop (length pat) s) @ repl pat @ re_sub_literal pat repl b"
      by (simp only: s_def)
    then show ?thesis
      unfolding unf unf' t dr using p True by simp
  next
    case False
    with no_straddle [OF ne hd, of s b] s
    have np: "\<not> prefix pat (s @ pat @ b)" by auto
    from False have "\<not> (pat \<noteq> [] \<and> prefix pat (d # ds))" by (simp add: s_def)
    from "2.IH"(2) [OF this ne hd]
    have "re_sub_literal pat repl (ds @ pat @ b) =
          re_sub_literal pat repl ds @ repl pat @ re_sub_literal pat repl b" .
    then show ?thesis
      unfolding unf unf' using np False by simp
  qed
  then show ?case by (simp only: s_def)
qed


lemma re_sub_literal_fixed:
  "repl pat = pat \<Longrightarrow> re_sub_literal pat repl s = s"
proof (induction pat repl s rule: re_sub_literal.induct)
  case (1 pat repl)
  show ?case by simp
next
  case (2 pat repl c cs)
  show ?case
  proof (cases "pat \<noteq> [] \<and> prefix pat (c # cs)")
    case True
    then have "take (length pat) (c # cs) = pat" by (auto simp: prefix_def)
    moreover from True have "pat @ drop (length pat) (c # cs) = c # cs" by (auto simp: prefix_def)
    ultimately show ?thesis using True 2 by (simp del: Cons_prefix_Cons)
  next
    case False
    with 2 show ?thesis by auto
  qed
qed

lemma re_sub_literal_absent:
  "\<not> sublist pat s \<Longrightarrow> re_sub_literal pat repl s = s"
proof (induction pat repl s rule: re_sub_literal.induct)
  case (1 pat repl)
  show ?case by simp
next
  case (2 pat repl c cs)
  from "2.prems" have "\<not> prefix pat (c # cs)" and "\<not> sublist pat cs"
    by (simp_all add: sublist_Cons_right)
  with 2 show ?case by simp
qed

lemma import_cleanup_id: "import_cleanup s = s"
  unfolding import_cleanup_def by (rule re_sub_literal_fixed) simp


lemma colors_pattern_Cons:
  "colors_pattern pw (c # cs) = (\<not> pw \<and> prefix ''Colors.'' (c # cs))"
  by (auto simp: colors_pattern_def is_word_def)

lemma is_word_olors:
  "is_word CHR ''o''" "is_word CHR ''l''" "is_word CHR ''r''" "is_word CHR ''s''"
  by (simp_all add: is_word_def)

lemma sub_colors_after_word:
  "sub_colors True (''Colors.'' @ b) = ''Colors.'' @ sub_colors False b"
  by (simp add: colors_pattern_Cons is_word_dot is_word_C is_word_olors)

lemma sub_colors_at_boundary:
  "sub_colors False (''Colors.'' @ b) = ''colors.'' @ sub_colors False b"
  by (simp add: colors_pattern_Cons is_word_dot)

lemma sub_colors_append:
  "sub_colors pw (a @ ''Colors.'' @ b) =
     sub_colors pw a @
     (if (if a = [] then pw else is_word (last a)) then ''Colors.'' else ''colors.'') @
     sub_colors False b"
proof (induction pw a rule: sub_colors.induct)
  case (1 pw)
  show ?case
    using sub_colors_after_word [of b] sub_colors_at_boundary [of b]
    by (cases pw) (simp_all del: sub_colors.simps(2))
next
  case (2 pw c cs)
  define s where "s = c # cs"
  have s: "s \<noteq> []" by (simp add: s_def)
  have unf: "sub_colors pw (s @ ''Colors.'' @ b) =
     (if \<not> pw \<and> prefix ''Colors.'' (s @ ''Colors.'' @ b)
      then ''colors.'' @ sub_colors False (drop 7 (s @ ''Colors.'' @ b))
      else c # sub_colors (is_word c) (cs @ ''Colors.'' @ b))"
    by (simp add: s_def colors_pattern_Cons is_word_dot eval_nat_numeral del: Cons_prefix_Cons)
  have unf': "sub_colors pw s =
     (if \<not> pw \<and> prefix ''Colors.'' s
      then ''colors.'' @ sub_colors False (drop 7 s)
      else c # sub_colors (is_word c) cs)"
    by (simp add: s_def colors_pattern_Cons is_word_dot eval_nat_numeral del: Cons_prefix_Cons)
  have "sub_colors pw (s @ ''Colors.'' @ b) =
     sub_colors pw s @ (if is_word (last s) then ''Colors.'' else ''colors.'') @ sub_colors False b"
  proof (cases "\<not> pw \<and> prefix ''Colors.'' s")
    case True
    then have pre: "prefix ''Colors.'' s" by simp
    then have le: "7 \<le> length s" using prefix_length_le by fastforce
    from pre have p: "prefix ''Colors.'' (s @ ''Colors.'' @ b)" by (rule prefix_prefix)
    from le have dr: "drop 7 (s @ ''Colors.'' @ b) = drop 7 s @ ''Colors.'' @ b" by simp
    from True have cp: "colors_pattern pw (c # cs)" by (simp add: colors_pattern_Cons s_def)
    have ih: "sub_colors False (drop 7 s @ ''Colors.'' @ b) =
       sub_colors False (drop 7 s) @
       (if (if drop 7 s = [] then False else is_word (last (drop 7 s))) then ''Colors.'' else ''colors.'') @
       sub_colors False b"
    proof -
      have "length ''Colors.'' = 7" by simp
      then have "drop (length ''Colors.'') (c # cs) = drop 7 s" by (simp only: s_def)
      with "2.IH"(1) [OF cp] show ?thesis by (simp only: is_word_dot)
    qed
    have lastdot: "drop 7 s = [] \<Longrightarrow> last s = CHR ''.''"
    proof -
      assume "drop 7 s = []"
      with le have "length s = 7" by simp
      with pre have "s = ''Colors.''" by (auto simp: prefix_def)
      then show ?thesis by simp
    qed
    have "(if drop 7 s = [] then False else is_word (last (drop 7 s))) = is_word (last s)"
    proof (cases "drop 7 s = []")
      case True
      with lastdot show ?thesis by (simp add: is_word_dot)
    next
      case False
      then show ?thesis by simp
    qed
    with ih show ?thesis unfolding unf unf' dr using True p by simp
  next
    case False
    have np: "\<not> (\<not> pw \<and> prefix ''Colors.'' (s @ ''Colors.'' @ b))"
    proof
      assume a: "\<not> pw \<and> prefix ''Colors.'' (s @ ''Colors.'' @ b)"
      then have "prefix ''Colors.'' s"
        using no_straddle [of "''Colors.''" s b] s by simp
      with a False show False by simp
    qed
    from False have ncp: "\<not> colors_pattern pw (c # cs)" by (simp add: colors_pattern_Cons s_def)
    have ih: "sub_colors (is_word c) (cs @ ''Colors.'' @ b) =
       sub_colors (is_word c) cs @
       (if (if cs = [] then is_word c else is_word (last cs)) then ''Colors.'' else ''colors.'') @
       sub_colors False b"
      using "2.IH"(2) [OF ncp] .
    have l: "(if cs = [] then is_word c else is_word (last cs)) = is_word (last s)"
      by (simp add: s_def)
    have e1: "sub_colors pw (s @ ''Colors.'' @ b) = c # sub_colors (is_word c) (cs @ ''Colors.'' @ b)"
      by (simp only: unf if_not_P [OF np])
    have e2: "sub_colors pw s = c # sub_colors (is_word c) cs"
      by (simp only: unf' if_not_P [OF False])
    show ?thesis unfolding e1 e2 ih l by simp
  qed
  then show ?case by (simp add: s_def del: sub_colors.simps(2))
qed


lemma sub_colors_absent:
  "(\<forall>a b. s = a @ ''Colors.'' @ b \<longrightarrow> (if a = [] then pw else is_word (last a))) \<Longrightarrow>
     sub_colors pw s = s"
proof (induction pw s rule: sub_colors.induct)
  case (1 pw)
  show ?case by simp
next
  case (2 pw c cs)
  have nm: "\<not> colors_pattern pw (c # cs)"
  proof
    assume "colors_pattern pw (c # cs)"
    then have npw: "\<not> pw" and "prefix ''Colors.'' (c # cs)"
      by (auto simp only: colors_pattern_Cons)
    then obtain b where "c # cs = [] @ ''Colors.'' @ b" by (auto simp: prefix_def)
    with "2.prems" have "if [] = ([] :: string) then pw else is_word (last [])" by blast
    with npw show False by simp
  qed
  have "\<forall>a b. cs = a @ ''Colors.'' @ b \<longrightarrow> (if a = [] then is_word c else is_word (last a))"
  proof (intro allI impI)
    fix a b
    assume "cs = a @ ''Colors.'' @ b"
    then have "c # cs = (c # a) @ ''Colors.'' @ b" by simp
    with "2.prems" have "if c # a = [] then pw else is_word (last (c # a))" by blast
    then show "if a = [] then is_word c else is_word (last a)" by (cases "a = []") simp_all
  qed
  with "2.IH"(2) [OF nm] have "sub_colors (is_word c) cs = cs" .
  with nm show ?case by simp
qed

subsection \<open>Import-list cleanup\<close>

text \<open>
  Claim C1 says that the import-list cleanup removes the token \<^verbatim>\<open>Colors\<close> from the
  import list of an import from the constants module. The pattern of this step matches
  only the text \<^verbatim>\<open>from '@/src/constants';\<close>, which contains neither \<^verbatim>\<open>, Colors\<close> nor
  \<^verbatim>\<open>Colors, \<close>, so the step returns every text as it is (\<open>import_cleanup_id\<close>). At the
  input \<^verbatim>\<open>import { Fonts, Colors } from '@/src/constants';\<close> the step, and the whole
  transformation, leave \<^verbatim>\<open>Colors\<close> in the import list.
\<close>

theorem import_cleanup_keeps_Colors:
  "import_cleanup ''import { Fonts, Colors } from '@/src/constants';'' =
     ''import { Fonts, Colors } from '@/src/constants';'' \<and>
   refactor_content ''import { Fonts, Colors } from '@/src/constants';'' =
     ''import { Fonts, Colors } from '@/src/constants';''"
  by (simp add: import_cleanup_def refactor_content_def component_pattern_def lit_def
      colors_pattern_def)

lemma import_substitution_example:
  "import_substitution ''import { Colors, useState } from 'react';'' =
     ''import { useTheme } from '@/src/contexts/ThemeContext';\<newline>import { useState } from 'react';''"
  by (simp add: import_substitution_def theme_block_def)

lemma refactor_content_example:
  "refactor_content ''import { Colors, useState } from 'react';'' =
     ''import { useTheme } from '@/src/contexts/ThemeContext';\<newline>import { useState } from 'react';''"
  by (simp add: refactor_content_def component_pattern_def lit_def colors_pattern_def)

subsection \<open>Import substitution\<close>

text \<open>
  Claim C2: the import substitution replaces every occurrence of \<^verbatim>\<open>import { Colors,\<close> by
  the theme import line followed by \<^verbatim>\<open>import {\<close>: whatever stands before and after an
  occurrence, the result is the result for the text before, the two-line block, and the
  result for the text after. For \<^verbatim>\<open>import { Colors, useState } from 'react';\<close> the step
  and the whole transformation insert the theme import and keep \<^verbatim>\<open>useState\<close>.
\<close>

theorem import_substitution_replaces:
  "import_substitution (a @ ''import { Colors,'' @ b) =
     import_substitution a @
     ''import { useTheme } from '@/src/contexts/ThemeContext';\<newline>import {'' @
     import_substitution b \<and>
   import_substitution ''import { Colors, useState } from 'react';'' =
     ''import { useTheme } from '@/src/contexts/ThemeContext';\<newline>import { useState } from 'react';'' \<and>
   refactor_content ''import { Colors, useState } from 'react';'' =
     ''import { useTheme } from '@/src/contexts/ThemeContext';\<newline>import { useState } from 'react';''"
proof (intro conjI)
  show "import_substitution (a @ ''import { Colors,'' @ b) =
     import_substitution a @
     ''import { useTheme } from '@/src/contexts/ThemeContext';\<newline>import {'' @
     import_substitution b"
    unfolding import_substitution_def theme_block_def
    by (rule re_sub_literal_append) simp_all
qed (rule import_substitution_example, rule refactor_content_example)

lemma reference_substitution_example:
  "reference_substitution
     ''Colors.primary Colors.background Colors.border ColorsPalette.foo MyColors.bar'' =
     ''colors.primary colors.background colors.border ColorsPalette.foo MyColors.bar''"
  by (simp add: reference_substitution_def colors_pattern_def is_word_def)

subsection \<open>Reference substitution\<close>

text \<open>
  Claim C4: the reference substitution turns every occurrence of \<^verbatim>\<open>Colors.\<close> with a word
  boundary on its left (the start of the text or a character that is not a word
  character) into \<^verbatim>\<open>colors.\<close>, and leaves an occurrence that follows a word character as
  it is; the texts before and after the occurrence are rewritten in the same way, so no
  count limits the replacements. The three references of the example are rewritten,
  \<^verbatim>\<open>ColorsPalette.foo\<close> and \<^verbatim>\<open>MyColors.bar\<close> are not.
\<close>

theorem reference_substitution_replaces:
  "reference_substitution (a @ ''Colors.'' @ b) =
     reference_substitution a @
     (if a \<noteq> [] \<and> is_word (last a) then ''Colors.'' else ''colors.'') @
     reference_substitution b \<and>
   reference_substitution
     ''Colors.primary Colors.background Colors.border ColorsPalette.foo MyColors.bar'' =
     ''colors.primary colors.background colors.border ColorsPalette.foo MyColors.bar''"
proof
  have "(if a = [] then False else is_word (last a)) = (a \<noteq> [] \<and> is_word (last a))" by simp
  then show "reference_substitution (a @ ''Colors.'' @ b) =
     reference_substitution a @
     (if a \<noteq> [] \<and> is_word (last a) then ''Colors.'' else ''colors.'') @
     reference_substitution b"
    unfolding reference_substitution_def using sub_colors_append [of False a b] by simp
qed (rule reference_substitution_example)

theorem reference_substitution_replaces_witness:
  "reference_substitution (''a = My'' @ ''Colors.'' @ ''x + Colors.y'') = ''a = MyColors.x + colors.y''"
  using reference_substitution_replaces [of "''a = My''" "''x + Colors.y''"]
  by (simp add: reference_substitution_def colors_pattern_def is_word_def)

subsection \<open>Results of the component pattern\<close>

lemma lit_Some: "lit l k s = Some r \<longleftrightarrow> (\<exists>t. s = l @ t \<and> k t = Some r)"
  by (auto simp: lit_def prefix_def)

lemma word_star_Some: "word_star k s = Some r \<Longrightarrow> \<exists>u t. s = u @ t \<and> k t = Some r"
proof (induction s)
  case Nil
  then show ?case by simp
next
  case (Cons c cs)
  show ?case
  proof (cases "is_word c \<and> word_star k cs \<noteq> None")
    case True
    with Cons.prems have "word_star k cs = Some r" by auto
    with Cons.IH obtain u t where "cs = u @ t" "k t = Some r" by blast
    then have "c # cs = (c # u) @ t \<and> k t = Some r" by simp
    then show ?thesis by blast
  next
    case False
    with Cons.prems have "k (c # cs) = Some r" by (auto split: if_splits option.splits)
    then have "c # cs = [] @ (c # cs) \<and> k (c # cs) = Some r" by simp
    then show ?thesis by blast
  qed
qed

lemma word_plus_Some: "word_plus k s = Some r \<Longrightarrow> \<exists>u t. s = u @ t \<and> k t = Some r"
proof (cases s)
  case Nil
  assume "word_plus k s = Some r"
  with Nil show ?thesis by simp
next
  case (Cons c cs)
  assume "word_plus k s = Some r"
  with Cons have "word_star k cs = Some r" by (simp split: if_splits)
  from word_star_Some [OF this] obtain u t where "cs = u @ t" "k t = Some r" by blast
  with Cons have "s = (c # u) @ t \<and> k t = Some r" by simp
  then show ?thesis by blast
qed

lemma not_brace_lazy_Some:
  "not_brace_lazy k s = Some r \<Longrightarrow> \<exists>u t. s = u @ t \<and> k t = Some r"
proof (induction s)
  case Nil
  then show ?case by simp
next
  case (Cons c cs)
  show ?case
  proof (cases "k (c # cs)")
    case (Some r')
    with Cons.prems have "c # cs = [] @ (c # cs) \<and> k (c # cs) = Some r" by simp
    then show ?thesis by blast
  next
    case None
    with Cons.prems have "not_brace_lazy k cs = Some r" by (simp split: if_splits)
    with Cons.IH obtain u t where "cs = u @ t" "k t = Some r" by blast
    then have "c # cs = (c # u) @ t \<and> k t = Some r" by simp
    then show ?thesis by blast
  qed
qed

lemma lit_SomeD: "lit l k s = Some r \<Longrightarrow> \<exists>t. s = l @ t \<and> k t = Some r"
  by (simp add: lit_Some)

lemma component_pattern_Some:
  assumes "component_pattern s = Some (r1, r2)"
  shows "\<exists>g. s = g @ r1 \<and> r1 = ''const {'' @ r2"
proof -
  define k4 :: "string \<Rightarrow> (string \<times> string) option"
    where "k4 = (\<lambda>r1. lit ''const {'' (\<lambda>r2. Some (r1, r2)) r1)"
  define k3 where "k3 = not_brace_lazy k4"
  define k2 where "k2 = lit ''() {'' k3"
  define k1 where "k1 = word_plus k2"
  from assms have "lit ''export default function '' k1 s = Some (r1, r2)"
    by (simp only: component_pattern_def k1_def k2_def k3_def k4_def)
  from lit_SomeD [OF this] obtain t1
    where 1: "s = ''export default function '' @ t1" and "k1 t1 = Some (r1, r2)" by blast
  then have "word_plus k2 t1 = Some (r1, r2)" by (simp only: k1_def)
  from word_plus_Some [OF this] obtain u2 t2
    where 2: "t1 = u2 @ t2" and "k2 t2 = Some (r1, r2)" by blast
  then have "lit ''() {'' k3 t2 = Some (r1, r2)" by (simp only: k2_def)
  from lit_SomeD [OF this] obtain t3
    where 3: "t2 = ''() {'' @ t3" and "k3 t3 = Some (r1, r2)" by blast
  then have "not_brace_lazy k4 t3 = Some (r1, r2)" by (simp only: k3_def)
  from not_brace_lazy_Some [OF this] obtain u4 t4
    where 4: "t3 = u4 @ t4" and "k4 t4 = Some (r1, r2)" by blast
  then have "lit ''const {'' (\<lambda>r2. Some (t4, r2)) t4 = Some (r1, r2)" by (simp only: k4_def)
  from lit_SomeD [OF this] obtain t5
    where 5: "t4 = ''const {'' @ t5" and 6: "Some (t4, t5) = Some (r1, r2)" by blast
  from 6 have e: "t4 = r1" "t5 = r2" by simp_all
  have "s = (''export default function '' @ u2 @ ''() {'' @ u4) @ r1"
    by (simp only: 1 2 3 4 e(1) append_assoc)
  moreover have "r1 = ''const {'' @ r2" using 5 e by (simp only:)
  ultimately show ?thesis by blast
qed

lemma expand_component_eq:
  assumes "component_pattern s = Some (r1, r2)"
  shows "\<exists>g. s = g @ ''const {'' @ r2 \<and> expand_component s (r1, r2) = g @ hook_line @ ''const {'' @ r2"
proof -
  from component_pattern_Some [OF assms] obtain g where g: "s = g @ r1" "r1 = ''const {'' @ r2"
    by blast
  have "take (length s - length r1) s = g" using g(1) by simp
  moreover have "take (length r1 - length r2) r1 = ''const {''" using g(2) by simp
  ultimately have "expand_component s (r1, r2) = g @ hook_line @ ''const {'' @ r2"
    by (simp add: expand_component_def hook_line_def)
  with g show ?thesis by blast
qed

lemma component_pattern_Nil: "component_pattern [] = None"
  by (simp add: component_pattern_def lit_def)

lemma sub_component_once:
  "sub_component s = s \<or>
   (\<exists>a b. s = a @ ''const {'' @ b \<and> sub_component s = a @ hook_line @ ''const {'' @ b)"
proof (induction s)
  case Nil
  show ?case by (simp add: component_pattern_Nil)
next
  case (Cons c cs)
  show ?case
  proof (cases "component_pattern (c # cs)")
    case None
    from Cons.IH show ?thesis
    proof
      assume "sub_component cs = cs"
      with None show ?thesis by simp
    next
      assume "\<exists>a b. cs = a @ ''const {'' @ b \<and> sub_component cs = a @ hook_line @ ''const {'' @ b"
      then obtain a b where "cs = a @ ''const {'' @ b" "sub_component cs = a @ hook_line @ ''const {'' @ b"
        by blast
      with None have "c # cs = (c # a) @ ''const {'' @ b \<and>
        sub_component (c # cs) = (c # a) @ hook_line @ ''const {'' @ b" by simp
      then show ?thesis by blast
    qed
  next
    case (Some m)
    obtain r1 r2 where m: "m = (r1, r2)" by (cases m)
    have sc: "sub_component (c # cs) = expand_component (c # cs) (r1, r2)"
      using Some m by simp
    from Some m have "component_pattern (c # cs) = Some (r1, r2)" by (simp only:)
    from expand_component_eq [OF this]
    obtain g where g1: "c # cs = g @ ''const {'' @ r2"
      and g2: "expand_component (c # cs) (r1, r2) = g @ hook_line @ ''const {'' @ r2" by blast
    have "sub_component (c # cs) = g @ hook_line @ ''const {'' @ r2"
      by (simp only: sc g2)
    with g1 show ?thesis by blast
  qed
qed

lemma sub_component_skip:
  "(\<forall>j<length pre. component_pattern (drop j (pre @ t)) = None) \<Longrightarrow>
     sub_component (pre @ t) = pre @ sub_component t"
proof (induction pre)
  case Nil
  show ?case by simp
next
  case (Cons c cs)
  from Cons.prems have "component_pattern (drop 0 ((c # cs) @ t)) = None" by blast
  then have 0: "component_pattern (c # cs @ t) = None" by simp
  have "\<forall>j<length cs. component_pattern (drop j (cs @ t)) = None"
  proof (intro allI impI)
    fix j assume "j < length cs"
    then have "Suc j < length (c # cs)" by simp
    with Cons.prems have "component_pattern (drop (Suc j) ((c # cs) @ t)) = None" by blast
    then show "component_pattern (drop j (cs @ t)) = None" by simp
  qed
  with Cons.IH have "sub_component (cs @ t) = cs @ sub_component t" .
  with 0 show ?case by simp
qed

lemma sub_component_no_match:
  assumes "\<forall>j<length s. component_pattern (drop j s) = None"
  shows "sub_component s = s"
proof -
  from assms have "\<forall>j<length s. component_pattern (drop j (s @ [])) = None" by simp
  then have "sub_component (s @ []) = s @ sub_component []" by (rule sub_component_skip)
  then show ?thesis by (simp add: component_pattern_Nil)
qed

lemma first_component_match_None:
  assumes "first_component_match s = None"
  shows "\<forall>j<length s. component_pattern (drop j s) = None"
proof (intro allI impI)
  fix j assume "j < length s"
  then have "j \<in> set [0..<length s]" by simp
  moreover from assms
  have "\<not> (\<exists>x. x \<in> set [0..<length s] \<and> component_pattern (drop x s) \<noteq> None)"
    unfolding first_component_match_def find_None_iff .
  ultimately show "component_pattern (drop j s) = None" by blast
qed

lemma first_component_match_Some:
  assumes "first_component_match s = Some n"
  shows "\<forall>j<n. component_pattern (drop j s) = None"
proof (intro allI impI)
  fix j assume j: "j < n"
  from assms have "\<exists>i<length [0..<length s].
      component_pattern (drop ([0..<length s] ! i) s) \<noteq> None \<and> n = [0..<length s] ! i \<and>
      (\<forall>j<i. \<not> component_pattern (drop ([0..<length s] ! j) s) \<noteq> None)"
    by (simp only: first_component_match_def find_Some_iff)
  then obtain i where i: "i < length [0..<length s]" "n = [0..<length s] ! i"
    and min: "\<forall>j<i. \<not> component_pattern (drop ([0..<length s] ! j) s) \<noteq> None"
    by blast
  from i have ni: "n = i" by simp
  with j have ji: "j < i" by simp
  with min have "\<not> component_pattern (drop ([0..<length s] ! j) s) \<noteq> None" by blast
  moreover from ji i have "[0..<length s] ! j = j" by simp
  ultimately show "component_pattern (drop j s) = None" by (simp only: not_not)
qed

subsection \<open>Hook insertion\<close>

lemma is_word_Screen:
  "is_word CHR ''S''" "is_word CHR ''c''" "is_word CHR ''r''" "is_word CHR ''e''"
  "is_word CHR ''n''" "\<not> is_word CHR ''(''"
  by (simp_all add: is_word_def)

lemma component_pattern_screen:
  "component_pattern
     (''export default function Screen() {\<newline>  '' @
      ''const { navigation } = useNavigation();'' @ post) =
   Some (''const { navigation } = useNavigation();'' @ post,
         '' navigation } = useNavigation();'' @ post)"
  by (simp add: component_pattern_def lit_def is_word_Screen)

lemma sub_component_screen:
  "sub_component
     (''export default function Screen() {\<newline>  '' @
      ''const { navigation } = useNavigation();'' @ post) =
   ''export default function Screen() {\<newline>  '' @
   ''const { colors } = useTheme();\<newline>  '' @
   ''const { navigation } = useNavigation();'' @ post"
proof -
  define s where "s = ''export default function Screen() {\<newline>  '' @
      ''const { navigation } = useNavigation();'' @ post"
  have cp: "component_pattern s =
   Some (''const { navigation } = useNavigation();'' @ post,
         '' navigation } = useNavigation();'' @ post)"
    unfolding s_def by (rule component_pattern_screen)
  have ne: "s \<noteq> []" by (simp add: s_def)
  then obtain c cs where ccs: "s = c # cs" by (cases s) auto
  have "sub_component s = expand_component s
     (''const { navigation } = useNavigation();'' @ post,
      '' navigation } = useNavigation();'' @ post)"
    using cp unfolding ccs by simp
  also have "\<dots> = ''export default function Screen() {\<newline>  '' @
   ''const { colors } = useTheme();\<newline>  '' @
   ''const { navigation } = useNavigation();'' @ post"
    by (simp add: expand_component_def s_def)
  finally show ?thesis unfolding s_def .
qed


text \<open>
  Claim C3, as amended. For a text that contains
  \<^verbatim>\<open>export default function Screen() {\<close>, a line break, two spaces and
  \<^verbatim>\<open>const { navigation } = useNavigation();\<close>, and in which the leftmost match of the
  component pattern starts at that declaration, the hook insertion puts
  \<^verbatim>\<open>const { colors } = useTheme();\<close>, a line break and two spaces immediately before
  \<^verbatim>\<open>const { navigation }\<close>. For every text the step inserts at most once: the result is
  the text itself or the text with that one line inserted before one \<^verbatim>\<open>const {\<close>. Where
  the pattern matches at no position the text is unchanged.
\<close>

theorem hook_insertion_screen:
  "(first_component_match
      (pre @ ''export default function Screen() {\<newline>  '' @
       ''const { navigation } = useNavigation();'' @ post) = Some (length pre) \<longrightarrow>
    hook_insertion
      (pre @ ''export default function Screen() {\<newline>  '' @
       ''const { navigation } = useNavigation();'' @ post) =
    pre @ ''export default function Screen() {\<newline>  '' @
    ''const { colors } = useTheme();\<newline>  '' @
    ''const { navigation } = useNavigation();'' @ post) \<and>
   (hook_insertion s = s \<or>
    (\<exists>a b. s = a @ ''const {'' @ b \<and>
       hook_insertion s = a @ ''const { colors } = useTheme();\<newline>  '' @ ''const {'' @ b)) \<and>
   (first_component_match s = None \<longrightarrow> hook_insertion s = s)"
proof (intro conjI impI)
  let ?t = "''export default function Screen() {\<newline>  '' @
       ''const { navigation } = useNavigation();'' @ post"
  assume "first_component_match (pre @ ?t) = Some (length pre)"
  then have "\<forall>j<length pre. component_pattern (drop j (pre @ ?t)) = None"
    by (rule first_component_match_Some)
  then have "sub_component (pre @ ?t) = pre @ sub_component ?t"
    by (rule sub_component_skip)
  then show "hook_insertion (pre @ ?t) =
    pre @ ''export default function Screen() {\<newline>  '' @
    ''const { colors } = useTheme();\<newline>  '' @
    ''const { navigation } = useNavigation();'' @ post"
    by (simp only: hook_insertion_def sub_component_screen)
next
  show "hook_insertion s = s \<or>
    (\<exists>a b. s = a @ ''const {'' @ b \<and>
       hook_insertion s = a @ ''const { colors } = useTheme();\<newline>  '' @ ''const {'' @ b)"
    using sub_component_once [of s] by (simp only: hook_insertion_def hook_line_def)
next
  assume "first_component_match s = None"
  then have "\<forall>j<length s. component_pattern (drop j s) = None"
    by (rule first_component_match_None)
  then show "hook_insertion s = s"
    unfolding hook_insertion_def by (rule sub_component_no_match)
qed

theorem hook_insertion_screen_witness:
  "hook_insertion
     (''// screen\<newline>'' @ ''export default function Screen() {\<newline>  '' @
      ''const { navigation } = useNavigation();'' @ ''\<newline>}'') =
   ''// screen\<newline>'' @ ''export default function Screen() {\<newline>  '' @
   ''const { colors } = useTheme();\<newline>  '' @
   ''const { navigation } = useNavigation();'' @ ''\<newline>}'' \<and>
   hook_insertion ''function f() { const { a } = b; }'' = ''function f() { const { a } = b; }''"
proof -
  have 1: "first_component_match
     (''// screen\<newline>'' @ ''export default function Screen() {\<newline>  '' @
      ''const { navigation } = useNavigation();'' @ ''\<newline>}'') = Some (length ''// screen\<newline>'')"
    by code_simp
  have 2: "first_component_match ''function f() { const { a } = b; }'' = None"
    by code_simp
  show ?thesis
    using hook_insertion_screen [of "''// screen\<newline>''" "''\<newline>}''" "''function f() { const { a } = b; }''"] 1 2
    by blast
qed

text \<open>
  Claim C3 as stated asks for the insertion before \<^verbatim>\<open>const { navigation }\<close> in every
  text that contains the Screen declaration. With \<^verbatim>\<open>count=1\<close> the step rewrites the
  leftmost match only: after an earlier declaration that matches, the line goes into
  the earlier function and the Screen function is left as it is.
\<close>

theorem hook_insertion_screen_counterexample:
  "hook_insertion
     (''export default function A() { const { a } = b; }\<newline>'' @
      ''export default function Screen() {\<newline>  '' @
      ''const { navigation } = useNavigation();'') \<noteq>
   ''export default function A() { const { a } = b; }\<newline>'' @
   ''export default function Screen() {\<newline>  '' @
   ''const { colors } = useTheme();\<newline>  '' @
   ''const { navigation } = useNavigation();''"
  by code_simp

lemma hook_insertion_two_declarations:
  "hook_insertion
     (''export default function A() { const { a } = b; }\<newline>'' @
      ''export default function Screen() {\<newline>  '' @
      ''const { navigation } = useNavigation();'') =
   ''export default function A() { const { colors } = useTheme();\<newline>  const { a } = b; }\<newline>'' @
   ''export default function Screen() {\<newline>  '' @
   ''const { navigation } = useNavigation();''"
  by code_simp

subsection \<open>A closing brace before the first destructuring\<close>

lemma word_star_lit:
  assumes "l \<noteq> []" and "\<not> is_word (hd l)"
  shows "word_star (lit l k) s = lit l k (dropWhile is_word s)"
proof (induction s)
  case Nil
  show ?case by simp
next
  case (Cons c cs)
  show ?case
  proof (cases "is_word c")
    case True
    have "\<not> prefix l (c # cs)"
    proof
      assume "prefix l (c # cs)"
      with assms(1) have "hd l = c" by (cases l) simp_all
      with assms(2) True show False by simp
    qed
    then have "lit l k (c # cs) = None" by (simp add: lit_def)
    with True Cons.IH show ?thesis by (simp split: option.splits)
  next
    case False
    then show ?thesis by simp
  qed
qed

lemma word_plus_lit:
  assumes "l \<noteq> []" and "\<not> is_word (hd l)"
  shows "word_plus (lit l k) s =
    (case s of [] \<Rightarrow> None
     | c # cs \<Rightarrow> if is_word c then lit l k (dropWhile is_word cs) else None)"
  by (cases s) (simp_all add: word_star_lit [OF assms])

lemma header_factor:
  "lit h (word_plus (lit ''() {'' k)) s =
     (case lit h (word_plus (lit ''() {'' Some)) s of None \<Rightarrow> None | Some body \<Rightarrow> k body)"
proof -
  have p: "''() {'' \<noteq> []" "\<not> is_word (hd ''() {'')" by (simp_all add: is_word_def)
  show ?thesis
    unfolding word_plus_lit [OF p]
    by (simp add: lit_def split: list.splits)
qed

lemma component_pattern_header:
  "component_pattern s =
     (case component_header s of
        None \<Rightarrow> None
      | Some body \<Rightarrow>
          not_brace_lazy (\<lambda>r1. lit ''const {'' (\<lambda>r2. Some (r1, r2)) r1) body)"
  unfolding component_pattern_def component_header_def by (rule header_factor)

lemma prefix_before:
  assumes "x \<notin> set pat" and "prefix pat (a @ x # b)"
  shows "prefix pat a"
proof (cases "length pat \<le> length a")
  case True
  have "prefix a (a @ x # b)" by simp
  then show ?thesis using prefix_length_prefix [OF assms(2) _ True] by simp
next
  case False
  then have lt: "length a < length pat" by simp
  have "(a @ x # b) ! length a = x" by simp
  with prefix_nth [OF assms(2) lt] have "pat ! length a = x" by simp
  with lt have "x \<in> set pat" by (metis nth_mem)
  with assms(1) show ?thesis by simp
qed

lemma not_brace_lazy_brace:
  "\<not> sublist ''const {'' a \<Longrightarrow>
     not_brace_lazy (\<lambda>r1. lit ''const {'' (\<lambda>r2. Some (r1, r2)) r1) (a @ ''}'' @ b) = None"
proof (induction a)
  case Nil
  show ?case by (simp add: lit_def)
next
  case (Cons c cs)
  from Cons.prems have np: "\<not> prefix ''const {'' (c # cs)" and ns: "\<not> sublist ''const {'' cs"
    by (simp_all add: sublist_Cons_right del: Cons_prefix_Cons)
  have "\<not> prefix ''const {'' ((c # cs) @ CHR ''}'' # b)"
  proof
    assume "prefix ''const {'' ((c # cs) @ CHR ''}'' # b)"
    then have "prefix ''const {'' (c # cs)" by (rule prefix_before [rotated]) simp
    with np show False by simp
  qed
  then have "lit ''const {'' (\<lambda>r2. Some ((c # cs) @ ''}'' @ b, r2)) ((c # cs) @ ''}'' @ b) = None"
    by (simp add: lit_def del: Cons_prefix_Cons)
  with Cons.IH [OF ns] show ?case by simp
qed

text \<open>
  Claim C8. Let the text have exactly one declaration
  \<^verbatim>\<open>export default function <identifier>() {\<close>, at position \<open>i\<close>, and let the text after
  its opening brace be \<open>a\<close>, a closing brace and \<open>b\<close>, where \<open>a\<close> contains no
  \<^verbatim>\<open>const {\<close>: a closing brace comes before the first \<^verbatim>\<open>const {\<close> of the body. Then the
  component pattern matches nowhere and the hook insertion returns the text unchanged.
\<close>

theorem hook_insertion_nested_block:
  assumes "declaration_positions s = [i]"
    and "component_header (drop i s) = Some (a @ ''}'' @ b)"
    and "\<not> sublist ''const {'' a"
  shows "hook_insertion s = s"
proof -
  have "\<forall>j<length s. component_pattern (drop j s) = None"
  proof (intro allI impI)
    fix j assume j: "j < length s"
    show "component_pattern (drop j s) = None"
    proof (cases "j = i")
      case True
      with assms(2) not_brace_lazy_brace [OF assms(3), of b] show ?thesis
        by (simp add: component_pattern_header)
    next
      case False
      with assms(1) have "j \<notin> set (declaration_positions s)" by simp
      with j have "component_header (drop j s) = None"
        by (simp add: declaration_positions_def)
      then show ?thesis by (simp add: component_pattern_header)
    qed
  qed
  then show ?thesis unfolding hook_insertion_def by (rule sub_component_no_match)
qed

theorem hook_insertion_nested_block_witness:
  "hook_insertion
     ''export default function Screen() {\<newline>  if (x) { return null; }\<newline>  const { a } = b;\<newline>}'' =
     ''export default function Screen() {\<newline>  if (x) { return null; }\<newline>  const { a } = b;\<newline>}''"
proof -
  let ?s = "''export default function Screen() {\<newline>  if (x) { return null; }\<newline>  const { a } = b;\<newline>}''"
  have 1: "declaration_positions ?s = [0]" by code_simp
  have 2: "component_header (drop 0 ?s) =
     Some (''\<newline>  if (x) { return null; '' @ ''}'' @ ''\<newline>  const { a } = b;\<newline>}'')"
    by code_simp
  have 3: "\<not> sublist ''const {'' ''\<newline>  if (x) { return null; ''" by code_simp
  show ?thesis by (rule hook_insertion_nested_block [OF 1 2 3])
qed

subsection \<open>The whole transformation\<close>

lemma refactor_content_steps:
  "refactor_content c =
     reference_substitution (hook_insertion (import_cleanup (import_substitution c)))"
  by (simp only: refactor_content_def Let_def reference_substitution_def hook_insertion_def
      import_cleanup_def import_substitution_def theme_block_def)

lemma refactor_screen_ok:
  assumes "files w p = Some f" and "readable f" and "writable f"
  shows "refactor_screen p w =
    (Inr (),
     w\<lparr>opened := opened w @ [p, p],
       files := (files w)(p \<mapsto> f\<lparr>content := refactor_content (content f)\<rparr>),
       stdout := stdout w @ [check_mark @ '' Refactored: '' @ p]\<rparr>)"
  using assms
  by (simp add: refactor_screen_def open_read_def open_write_def print_def Let_def)

text \<open>
  Claim C5. The text that \<^verbatim>\<open>refactor_screen\<close> computes from the content read is the
  reference substitution of the hook insertion of the import-list cleanup of the import
  substitution of that content: each step works on the whole output of the step before.
  For a file that can be read and written, the call succeeds and the file then holds
  exactly this text.
\<close>

theorem refactor_screen_composition:
  "refactor_content c =
     reference_substitution (hook_insertion (import_cleanup (import_substitution c))) \<and>
   (files w p = Some f \<and> readable f \<and> writable f \<longrightarrow>
      fst (refactor_screen p w) = Inr () \<and>
      files (snd (refactor_screen p w)) =
        (files w)(p \<mapsto> f\<lparr>content :=
           reference_substitution
             (hook_insertion (import_cleanup (import_substitution (content f))))\<rparr>))"
  by (simp add: refactor_screen_ok refactor_content_steps)

theorem refactor_screen_composition_witness:
  "fst (refactor_screen ''Home.tsx''
     \<lparr>files = [''Home.tsx'' \<mapsto> \<lparr>content = ''c = Colors.a'', readable = True, writable = True\<rparr>],
      stdout = [], opened = []\<rparr>) = Inr () \<and>
   map_option content
     (files (snd (refactor_screen ''Home.tsx''
        \<lparr>files = [''Home.tsx'' \<mapsto> \<lparr>content = ''c = Colors.a'', readable = True, writable = True\<rparr>],
         stdout = [], opened = []\<rparr>)) ''Home.tsx'') = Some ''c = colors.a''"
proof -
  let ?f = "\<lparr>content = ''c = Colors.a'', readable = True, writable = True\<rparr>"
  let ?w = "\<lparr>files = [''Home.tsx'' \<mapsto> ?f], stdout = [], opened = []\<rparr>"
  have h: "files ?w ''Home.tsx'' = Some ?f \<and> readable ?f \<and> writable ?f" by simp
  have e: "reference_substitution (hook_insertion (import_cleanup (import_substitution ''c = Colors.a'')))
    = ''c = colors.a''"
    by code_simp
  from refactor_screen_composition [of "''c = Colors.a''" ?w "''Home.tsx''" ?f] h
  have "fst (refactor_screen ''Home.tsx'' ?w) = Inr () \<and>
      files (snd (refactor_screen ''Home.tsx'' ?w)) =
        (files ?w)(''Home.tsx'' \<mapsto> ?f\<lparr>content :=
           reference_substitution
             (hook_insertion (import_cleanup (import_substitution (content ?f))))\<rparr>)"
    by blast
  then show ?thesis using e by simp
qed

subsection \<open>Usage and I/O errors\<close>

text \<open>
  Claim C6. With fewer than two entries in \<^verbatim>\<open>sys.argv\<close> (no path argument) the program
  prints the usage line to standard output and exits with status 1; it calls
  \<^verbatim>\<open>open\<close> on no path and leaves every file as it is.
\<close>

theorem main_missing_argument:
  assumes "length argv < 2"
  shows "fst (main argv w) = Exit 1 \<and>
    stdout (snd (main argv w)) = stdout w @ [''Usage: python refactor-screen.py <filepath>''] \<and>
    opened (snd (main argv w)) = opened w \<and>
    files (snd (main argv w)) = files w"
  using assms by (simp add: main_def print_def)

theorem main_missing_argument_witness:
  "fst (main [''refactor-screen.py''] \<lparr>files = Map.empty, stdout = [], opened = []\<rparr>) = Exit 1 \<and>
   stdout (snd (main [''refactor-screen.py''] \<lparr>files = Map.empty, stdout = [], opened = []\<rparr>)) =
     [''Usage: python refactor-screen.py <filepath>''] \<and>
   opened (snd (main [''refactor-screen.py''] \<lparr>files = Map.empty, stdout = [], opened = []\<rparr>)) = []"
proof -
  have h: "length [''refactor-screen.py''] < 2" by simp
  show ?thesis
    using main_missing_argument [OF h, of "\<lparr>files = Map.empty, stdout = [], opened = []\<rparr>"]
    by simp
qed

text \<open>
  Claim C7. When the path names no file, or a file that cannot be read or cannot be
  written, \<^verbatim>\<open>refactor_screen\<close> raises an \<^verbatim>\<open>OSError\<close>, the program ends with that
  exception uncaught, nothing is printed to standard output (so the success line is
  not), and no file changes.
\<close>

theorem refactor_screen_io_error:
  assumes "files w p = None \<or> (\<exists>f. files w p = Some f \<and> (\<not> readable f \<or> \<not> writable f))"
  shows "\<exists>e w'. refactor_screen p w = (Inl e, w') \<and> main [prog, p] w = (Uncaught e, w') \<and>
    stdout w' = stdout w \<and> files w' = files w"
proof -
  have m: "main [prog, p] w =
    (case refactor_screen p w of (Inl e, w') \<Rightarrow> (Uncaught e, w') | (Inr u, w') \<Rightarrow> (Exit 0, w'))"
    by (simp add: main_def)
  from assms consider
    (missing) "files w p = None"
    | (unreadable) f where "files w p = Some f" "\<not> readable f"
    | (unwritable) f where "files w p = Some f" "readable f" "\<not> writable f"
    by auto
  then show ?thesis
  proof cases
    case missing
    then have "refactor_screen p w = (Inl FileNotFoundError, w\<lparr>opened := opened w @ [p]\<rparr>)"
      by (simp add: refactor_screen_def open_read_def Let_def)
    then show ?thesis unfolding m by simp
  next
    case unreadable
    then have "refactor_screen p w = (Inl PermissionError, w\<lparr>opened := opened w @ [p]\<rparr>)"
      by (simp add: refactor_screen_def open_read_def Let_def)
    then show ?thesis unfolding m by simp
  next
    case unwritable
    then have "refactor_screen p w = (Inl PermissionError, w\<lparr>opened := opened w @ [p, p]\<rparr>)"
      by (simp add: refactor_screen_def open_read_def open_write_def Let_def)
    then show ?thesis unfolding m by simp
  qed
qed

theorem refactor_screen_io_error_witness:
  "\<exists>e w'. refactor_screen ''Missing.tsx'' \<lparr>files = Map.empty, stdout = [], opened = []\<rparr> = (Inl e, w') \<and>
     main [''refactor-screen.py'', ''Missing.tsx''] \<lparr>files = Map.empty, stdout = [], opened = []\<rparr> =
       (Uncaught e, w') \<and>
     stdout w' = [] \<and> files w' = Map.empty"
proof -
  have h: "files \<lparr>files = Map.empty, stdout = [], opened = []\<rparr> ''Missing.tsx'' = None \<or>
    (\<exists>f. files \<lparr>files = Map.empty, stdout = [], opened = []\<rparr> ''Missing.tsx'' = Some f \<and>
       (\<not> readable f \<or> \<not> writable f))"
    by simp
  show ?thesis
    using refactor_screen_io_error [OF h, of "''refactor-screen.py''"] by simp
qed

subsection \<open>The inputs of a run, and the identity case\<close>




lemma import_substitution_absent:
  "\<not> sublist ''import { Colors,'' c \<Longrightarrow> import_substitution c = c"
  unfolding import_substitution_def by (rule re_sub_literal_absent)

lemma reference_substitution_absent:
  assumes "\<forall>a b. c = a @ ''Colors.'' @ b \<longrightarrow> a \<noteq> [] \<and> is_word (last a)"
  shows "reference_substitution c = c"
proof -
  from assms have "\<forall>a b. c = a @ ''Colors.'' @ b \<longrightarrow> (if a = [] then False else is_word (last a))"
    by simp
  then show ?thesis unfolding reference_substitution_def by (rule sub_colors_absent)
qed

lemma hook_insertion_absent:
  "first_component_match c = None \<Longrightarrow> hook_insertion c = c"
  unfolding hook_insertion_def
  by (rule sub_component_no_match) (rule first_component_match_None)

text \<open>
  Claim C10. If the content has no occurrence of \<^verbatim>\<open>import { Colors,\<close>, no occurrence of
  \<^verbatim>\<open>from '@/src/constants';\<close>, no match of the component pattern at any position, and
  every occurrence of \<^verbatim>\<open>Colors.\<close> follows a word character, then the transformation
  returns the content unchanged, and a run on a file with that content leaves the file
  store as it was.
\<close>

theorem refactor_identity:
  assumes "\<not> sublist ''import { Colors,'' c"
    and "\<not> sublist ''from '@/src/constants';'' c"
    and "first_component_match c = None"
    and "\<forall>a b. c = a @ ''Colors.'' @ b \<longrightarrow> a \<noteq> [] \<and> is_word (last a)"
  shows "refactor_content c = c \<and>
    (files w p = Some f \<and> content f = c \<and> readable f \<and> writable f \<longrightarrow>
       fst (refactor_screen p w) = Inr () \<and> files (snd (refactor_screen p w)) = files w)"
proof -
  have c: "refactor_content c = c"
    by (simp only: refactor_content_steps import_substitution_absent [OF assms(1)]
        import_cleanup_id hook_insertion_absent [OF assms(3)]
        reference_substitution_absent [OF assms(4)])
  have "fst (refactor_screen p w) = Inr () \<and> files (snd (refactor_screen p w)) = files w"
    if "files w p = Some f" "content f = c" "readable f" "writable f"
  proof -
    from that c have "f\<lparr>content := refactor_content (content f)\<rparr> = f" by simp
    with that show ?thesis by (simp add: refactor_screen_ok map_upd_triv)
  qed
  with c show ?thesis by blast
qed

lemma no_boundary_occurrence:
  assumes "\<forall>j<length c. prefix ''Colors.'' (drop j c) \<longrightarrow> 0 < j \<and> is_word (c ! (j - 1))"
  shows "\<forall>a b. c = a @ ''Colors.'' @ b \<longrightarrow> a \<noteq> [] \<and> is_word (last a)"
proof (intro allI impI)
  fix a b assume c: "c = a @ ''Colors.'' @ b"
  then have "length a < length c" and "prefix ''Colors.'' (drop (length a) c)" by simp_all
  with assms have j: "0 < length a" "is_word (c ! (length a - 1))" by blast+
  from j(1) have ne: "a \<noteq> []" by simp
  then have "c ! (length a - 1) = last a" unfolding c by (simp add: nth_append last_conv_nth)
  with j(2) ne show "a \<noteq> [] \<and> is_word (last a)" by simp
qed

theorem refactor_identity_witness:
  "refactor_content ''const c = MyColors.a;'' = ''const c = MyColors.a;'' \<and>
   files (snd (refactor_screen ''A.tsx''
      \<lparr>files = [''A.tsx'' \<mapsto> \<lparr>content = ''const c = MyColors.a;'', readable = True, writable = True\<rparr>],
       stdout = [], opened = []\<rparr>)) =
     [''A.tsx'' \<mapsto> \<lparr>content = ''const c = MyColors.a;'', readable = True, writable = True\<rparr>]"
proof -
  let ?c = "''const c = MyColors.a;''"
  let ?f = "\<lparr>content = ?c, readable = True, writable = True\<rparr>"
  let ?w = "\<lparr>files = [''A.tsx'' \<mapsto> ?f], stdout = [], opened = []\<rparr>"
  have 1: "\<not> sublist ''import { Colors,'' ?c" by code_simp
  have 2: "\<not> sublist ''from '@/src/constants';'' ?c" by code_simp
  have 3: "first_component_match ?c = None" by code_simp
  have "list_all (\<lambda>j. prefix ''Colors.'' (drop j ?c) \<longrightarrow> 0 < j \<and> is_word (?c ! (j - 1)))
     [0..<length ?c]"
    by code_simp
  then have "\<forall>j<length ?c. prefix ''Colors.'' (drop j ?c) \<longrightarrow> 0 < j \<and> is_word (?c ! (j - 1))"
    unfolding list_all_iff by (simp only: atLeast_upt [symmetric] lessThan_iff Ball_def) 
  then have 4: "\<forall>a b. ?c = a @ ''Colors.'' @ b \<longrightarrow> a \<noteq> [] \<and> is_word (last a)"
    by (rule no_boundary_occurrence)
  have h: "files ?w ''A.tsx'' = Some ?f \<and> content ?f = ?c \<and> readable ?f \<and> writable ?f" by simp
  from refactor_identity [OF 1 2 3 4, of ?w "''A.tsx''" ?f] h
  have "refactor_content ?c = ?c \<and> files (snd (refactor_screen ''A.tsx'' ?w)) = files ?w"
    by blast
  then show ?thesis by simp
qed

end
